theory Spec2Isabelle
  imports Main "HOL-Library.Word" "HOL-Library.List_Lexorder"
begin

unbundle bit_operations_syntax

section \<open>Go values\<close>

text \<open>
  Go's \<open>int64\<close>, \<open>time.Duration\<close> and (on the 64-bit platforms the module targets)
  \<open>int\<close> are 64-bit two's complement integers: arithmetic wraps, comparisons are the
  signed ones (\<open><s\<close>, \<open>\<le>s\<close>). A \<open>[]byte\<close> is either \<open>nil\<close> or a sequence of
  bytes, and the two are told apart by \<open>== nil\<close>, so a slice is an optional byte list.
  A Go \<open>string\<close> is a sequence of bytes; \<open>string(key)\<close> of a nil slice is the empty
  string, and \<open>[]byte(s)\<close> is never nil.
\<close>

type_synonym byte = "8 word"
type_synonym bytes = "byte list"
type_synonym int64 = "64 word"
type_synonym slice = "bytes option"

definition string_of :: "slice \<Rightarrow> bytes" where
  "string_of b = (case b of None \<Rightarrow> [] | Some s \<Rightarrow> s)"

definition len :: "slice \<Rightarrow> nat" where
  "len b = (case b of None \<Rightarrow> 0 | Some s \<Rightarrow> length s)"

text \<open>
  An \<open>interface{}\<close> value as the cache stores it: the nil interface, a \<open>[]byte\<close>
  (itself possibly a nil slice), or a value of any other dynamic type. The adapter only
  asks two things of it: \<open>obj != nil\<close> and the type assertion \<open>obj.([]byte)\<close>.
\<close>

datatype object = NilObject | ByteSlice slice | OtherObject

datatype error = ErrCanceled | ErrNotExist

text \<open>\<open>strings.HasPrefix(s, prefix)\<close>:
  \<open>len(s) >= len(prefix) && s[0:len(prefix)] == prefix\<close>.\<close>

definition HasPrefix :: "bytes \<Rightarrow> bytes \<Rightarrow> bool" where
  "HasPrefix s p = (length p \<le> length s \<and> take (length p) s = p)"

text \<open>The comparison \<open>a >= b\<close> of two Go strings: byte by byte, unsigned, the longer
  string being the greater when one is a prefix of the other.\<close>

fun string_ge :: "bytes \<Rightarrow> bytes \<Rightarrow> bool" where
  "string_ge a [] = True"
| "string_ge [] (y # b) = False"
| "string_ge (x # a) (y # b) = (if x = y then string_ge a b else y < x)"

text \<open>\<open>binary.BigEndian.Uint64\<close> and \<open>PutUint64\<close>. Both index the bytes 0 to 7 and
  panic on a shorter slice; their callers below check the length first, respectively
  pass a fresh \<open>make([]byte, 8)\<close>.\<close>

definition Uint64 :: "bytes \<Rightarrow> 64 word" where
  "Uint64 b =
     ucast (b ! 7) OR push_bit 8 (ucast (b ! 6)) OR push_bit 16 (ucast (b ! 5)) OR
     push_bit 24 (ucast (b ! 4)) OR push_bit 32 (ucast (b ! 3)) OR
     push_bit 40 (ucast (b ! 2)) OR push_bit 48 (ucast (b ! 1)) OR
     push_bit 56 (ucast (b ! 0))"

definition PutUint64 :: "bytes \<Rightarrow> 64 word \<Rightarrow> bytes" where
  "PutUint64 b v =
     b[0 := ucast (drop_bit 56 v), 1 := ucast (drop_bit 48 v), 2 := ucast (drop_bit 40 v),
       3 := ucast (drop_bit 32 v), 4 := ucast (drop_bit 24 v), 5 := ucast (drop_bit 16 v),
       6 := ucast (drop_bit 8 v), 7 := ucast v]"

definition make_bytes :: "nat \<Rightarrow> bytes" where
  "make_bytes n = replicate n 0"

section \<open>The underlying engine\<close>

text \<open>
  Modelled from the spec: the expiring cache the adapter wraps is the external package
  \<open>github.com/patrickmn/go-cache\<close> (v2.1.0 in go.mod), not part of this repository. The
  engine contract of the specification names \<open>Get\<close>, \<open>Set\<close>, \<open>Delete\<close> and
  \<open>Items\<close> with a per-entry absolute expiration instant; the definitions below follow
  it, with the conventions of the package where the specification is silent: an item
  holds the stored object and its expiration as Unix nanoseconds; \<open>Set\<close> with the
  duration \<open>DefaultExpiration\<close> (zero) takes the default of the cache, and a duration
  that is not positive then gives the expiration zero, which never expires; \<open>Get\<close> and
  \<open>Items\<close> hide an item once the clock is strictly past a positive expiration, and do
  not remove it. The clock the engine reads (\<open>time.Now().UnixNano()\<close>) is the argument
  \<open>now\<close> of each operation. The periodic sweep of the engine only removes items that
  \<open>Get\<close> and \<open>Items\<close> hide already, so it is not part of the model.
\<close>

record Item =
  Object :: object
  Expiration :: int64

record Cache =
  defaultExpiration :: int64
  items :: "bytes \<rightharpoonup> Item"

definition NoExpiration :: int64 where
  "NoExpiration = - 1"

definition DefaultExpiration :: int64 where
  "DefaultExpiration = 0"

definition Second :: int64 where
  "Second = 1000000000"

definition Hour :: int64 where
  "Hour = 3600 * Second"

text \<open>An item is hidden once the clock is strictly past a positive expiration.\<close>

definition Expired :: "int64 \<Rightarrow> Item \<Rightarrow> bool" where
  "Expired now item = (0 <s Expiration item \<and> Expiration item <s now)"

definition cache_New :: "int64 \<Rightarrow> int64 \<Rightarrow> Cache" where
  "cache_New de ci =
     \<lparr>defaultExpiration = (if de = 0 then - 1 else de), items = Map.empty\<rparr>"

definition cache_Set :: "int64 \<Rightarrow> bytes \<Rightarrow> object \<Rightarrow> int64 \<Rightarrow> Cache \<Rightarrow> Cache" where
  "cache_Set now k x d c =
     (let d = (if d = DefaultExpiration then defaultExpiration c else d);
          e = (if 0 <s d then now + d else 0)
      in c\<lparr>items := (items c)(k \<mapsto> \<lparr>Object = x, Expiration = e\<rparr>)\<rparr>)"

definition cache_Get :: "int64 \<Rightarrow> bytes \<Rightarrow> Cache \<Rightarrow> object \<times> bool" where
  "cache_Get now k c =
     (case items c k of
        None \<Rightarrow> (NilObject, False)
      | Some item \<Rightarrow> if Expired now item then (NilObject, False) else (Object item, True))"

definition cache_Delete :: "bytes \<Rightarrow> Cache \<Rightarrow> Cache" where
  "cache_Delete k c = c\<lparr>items := (items c)(k := None)\<rparr>"

text \<open>\<open>Items()\<close> copies the unexpired items into a new map.\<close>

definition cache_Items :: "int64 \<Rightarrow> Cache \<Rightarrow> (bytes \<rightharpoonup> Item)" where
  "cache_Items now c =
     (\<lambda>k. case items c k of
             None \<Rightarrow> None
           | Some item \<Rightarrow> if Expired now item then None else Some item)"

section \<open>Configuration and construction (cache\_config.go, cache\_factory.go)\<close>

record Config =
  Config_DefaultExpiration :: int64
  CleanupInterval :: int64

datatype Option = WithNope | WithDefaultExpiration int64 | WithCleanupInterval int64

fun Option_apply :: "Option \<Rightarrow> Config \<Rightarrow> Config" where
  "Option_apply WithNope opts = opts"
| "Option_apply (WithDefaultExpiration v) opts = opts\<lparr>Config_DefaultExpiration := v\<rparr>"
| "Option_apply (WithCleanupInterval v) opts = opts\<lparr>CleanupInterval := v\<rparr>"

definition OpenDatabase :: "Option list \<Rightarrow> Cache" where
  "OpenDatabase options =
     (let conf = \<lparr>Config_DefaultExpiration = NoExpiration, CleanupInterval = Hour\<rparr>;
          conf = foldl (\<lambda>conf opt. Option_apply opt conf) conf options
      in cache_New (Config_DefaultExpiration conf) (CleanupInterval conf))"

text \<open>
  A \<open>cacheStore\<close> is a name, which no method changes, and the handle of its cache, so
  the state of a store is the state of that cache: \<open>New\<close> opens a database, \<open>FromCache\<close>
  adopts any cache the caller built, whatever objects it holds.
\<close>

definition New :: "Option list \<Rightarrow> Cache" where
  "New options = OpenDatabase options"

definition NewDefault :: Cache where
  "NewDefault = New []"

definition FromCache :: "Cache \<Rightarrow> Cache" where
  "FromCache c = c"

section \<open>The adapter (cache\_store.go)\<close>

text \<open>
  Every method takes the state of the cache and returns its result together with the
  new state where it writes. A method that calls the engine twice has one clock reading
  for each call. The constant \<open>store.NoTTL\<close> is declared in the external package
  \<open>github.com/keyvalstore/store\<close>.
\<close>

definition NoTTL :: int64 where
  \<comment> \<open>Modelled from the spec: the constant is not declared in this repository; the
      specification has an entry's TTL "defaulted to no TTL", and TTL values \<open>\<le> 0\<close> mean
      no expiration.\<close>
  "NoTTL = 0"

record RawEntry =
  Key :: slice
  Value :: slice
  Ttl :: int64
  Version :: int64

definition getImpl :: "int64 \<Rightarrow> slice \<Rightarrow> bool \<Rightarrow> Cache \<Rightarrow> error + slice" where
  "getImpl now key required c =
     (let val = (case cache_Get now (string_of key) c of
                   (obj, ok) \<Rightarrow>
                     if ok \<and> obj \<noteq> NilObject
                     then (case obj of ByteSlice b \<Rightarrow> b | _ \<Rightarrow> None)
                     else None)
      in if val = None \<and> required then Inl ErrNotExist else Inr val)"

definition GetRaw :: "int64 \<Rightarrow> slice \<Rightarrow> bool \<Rightarrow> Cache \<Rightarrow> error + slice" where
  "GetRaw now key required c = getImpl now key required c"

definition SetRaw :: "int64 \<Rightarrow> slice \<Rightarrow> slice \<Rightarrow> int64 \<Rightarrow> Cache \<Rightarrow> error option \<times> Cache" where
  "SetRaw now key val ttlSeconds c =
     (let ttl = (if 0 <s ttlSeconds then Second * ttlSeconds else NoExpiration)
      in (None, cache_Set now (string_of key) (ByteSlice val) ttl c))"

text \<open>
  A callback is a Go closure: it is handed a pointer to the entry and may read and
  write the variables it captured. The slices in the entry are not copies. The \<open>Key\<close>
  of the entry is the slice \<open>UpdateRaw\<close> was called with, so it shares the array behind
  the argument \<open>key\<close>, and the \<open>Value\<close> is the slice \<open>cache.Get\<close> returned, which is
  the one the engine holds. A callback that assigns a field changes the entry only; a
  callback that writes through a slice (\<open>entry.Value[0] = 9\<close>) changes the array, and
  with it what \<open>key\<close> reads as, or what the engine holds.

  So a call of a callback is described by five things: what it returns, the fields it
  leaves in the entry (slices by the bytes they hold at that moment), what it leaves in
  its captured variables \<open>env\<close>, and what it wrote into each of the two arrays. The
  writes into an array are a partial map from the indices of its slice to bytes: the
  byte the callback left in a cell, and nothing where it left the cell alone. A slice
  keeps its length. A callback that calls a method of the store from inside is making
  a call of its own, with the effect of that method; it is not described here.
\<close>

type_synonym writes = "nat \<rightharpoonup> byte"

definition write_through :: "bytes \<Rightarrow> writes \<Rightarrow> bytes" where
  "write_through b w = map (\<lambda>i. case w i of None \<Rightarrow> b ! i | Some x \<Rightarrow> x) [0..<length b]"

record 'e outcome =
  commit :: bool
  entry_left :: RawEntry
  env_left :: 'e
  key_writes :: writes
  value_writes :: writes

type_synonym 'e callback = "RawEntry \<Rightarrow> 'e \<Rightarrow> 'e outcome"

text \<open>
  What writing through the slice \<open>cache.Get\<close> returned for \<open>k\<close> does to the engine:
  when the item was found and holds a non-nil byte slice, that slice is the array
  written; otherwise the callback was handed no array of the engine.
\<close>

definition written_through :: "int64 \<Rightarrow> bytes \<Rightarrow> writes \<Rightarrow> Cache \<Rightarrow> Cache" where
  "written_through now k w c =
     (case cache_Get now k c of
        (ByteSlice (Some b), True) \<Rightarrow>
          (case items c k of
             Some item \<Rightarrow> c\<lparr>items := (items c)(k \<mapsto> item\<lparr>Object := ByteSlice (Some (write_through b w))\<rparr>)\<rparr>
           | None \<Rightarrow> c)
      | _ \<Rightarrow> c)"

text \<open>
  \<open>UpdateRaw\<close> converts \<open>key\<close> to a string twice: for \<open>cache.Get\<close> before the
  callback runs, and for \<open>cache.Set\<close> after it, when the array behind \<open>key\<close> holds
  what the callback left there.
\<close>

definition UpdateRaw ::
  "int64 \<Rightarrow> int64 \<Rightarrow> slice \<Rightarrow> 'e callback \<Rightarrow> 'e \<Rightarrow> Cache \<Rightarrow> error option \<times> 'e \<times> Cache" where
  "UpdateRaw now_get now_set key cb env c =
     (let rawEntry = \<lparr>Key = key, Value = None, Ttl = NoTTL, Version = 0\<rparr>;
          rawEntry = (case cache_Get now_get (string_of key) c of
                        (obj, ok) \<Rightarrow>
                          if ok \<and> obj \<noteq> NilObject
                          then (case obj of ByteSlice b \<Rightarrow> rawEntry\<lparr>Value := b\<rparr> | _ \<Rightarrow> rawEntry)
                          else rawEntry);
          r = cb rawEntry env;
          c = written_through now_get (string_of key) (value_writes r) c;
          key = map_option (\<lambda>k. write_through k (key_writes r)) key;
          rawEntry = entry_left r
      in if \<not> commit r then (Some ErrCanceled, env_left r, c)
         else let ttl = (if 0 <s Ttl rawEntry then Second * Ttl rawEntry else NoExpiration)
              in (None, env_left r, cache_Set now_set (string_of key) (ByteSlice (Value rawEntry)) ttl c))"

text \<open>The closure of \<open>IncrementRaw\<close> captures the named result \<open>prev\<close>, which starts
  as zero. It reads the value it is handed and assigns a slice it has just made: it
  writes through neither array.\<close>

definition IncrementRaw_cb :: "int64 \<Rightarrow> int64 \<Rightarrow> int64 \<Rightarrow> int64 callback" where
  "IncrementRaw_cb initial delta ttlSeconds entry prev =
     (let counter = initial;
          counter = (if 8 \<le> len (Value entry) then Uint64 (string_of (Value entry)) else counter);
          prev = counter;
          counter = counter + delta;
          entry = entry\<lparr>Value := Some (PutUint64 (make_bytes 8) counter)\<rparr>;
          entry = entry\<lparr>Ttl := ttlSeconds\<rparr>
      in \<lparr>commit = True, entry_left = entry, env_left = prev,
          key_writes = Map.empty, value_writes = Map.empty\<rparr>)"

definition IncrementRaw ::
  "int64 \<Rightarrow> int64 \<Rightarrow> slice \<Rightarrow> int64 \<Rightarrow> int64 \<Rightarrow> int64 \<Rightarrow> Cache \<Rightarrow> int64 \<times> error option \<times> Cache" where
  "IncrementRaw now_get now_set key initial delta ttlSeconds c =
     (case UpdateRaw now_get now_set key (IncrementRaw_cb initial delta ttlSeconds) 0 c of
        (err, prev, c) \<Rightarrow> (prev, err, c))"

definition CompareAndSetRaw ::
  "int64 \<Rightarrow> slice \<Rightarrow> slice \<Rightarrow> int64 \<Rightarrow> int64 \<Rightarrow> Cache \<Rightarrow> bool \<times> error option \<times> Cache" where
  "CompareAndSetRaw now key val ttlSeconds version c = (True, SetRaw now key val ttlSeconds c)"

definition TouchRaw :: "int64 \<Rightarrow> int64 \<Rightarrow> slice \<Rightarrow> int64 \<Rightarrow> Cache \<Rightarrow> error option \<times> Cache" where
  "TouchRaw now_get now_set key ttlSeconds c =
     (let val = (case cache_Get now_get (string_of key) c of
                   (obj, ok) \<Rightarrow>
                     if ok \<and> obj \<noteq> NilObject
                     then (case obj of ByteSlice b \<Rightarrow> b | _ \<Rightarrow> None)
                     else None);
          ttl = (if 0 <s ttlSeconds then Second * ttlSeconds else NoExpiration)
      in (None, cache_Set now_set (string_of key) (ByteSlice val) ttl c))"

definition RemoveRaw :: "slice \<Rightarrow> Cache \<Rightarrow> error option \<times> Cache" where
  "RemoveRaw key c = (None, cache_Delete (string_of key) c)"

subsection \<open>Enumeration\<close>

text \<open>
  Go visits the keys of a map in an order of the runtime's choosing. The \<open>range\<close>
  loops below take that order as the list \<open>ord\<close> of the keys in the order visited; it
  enumerates the keys of the map that \<open>Items()\<close> returned, each once.
\<close>

definition iteration_order :: "bytes list \<Rightarrow> (bytes \<rightharpoonup> Item) \<Rightarrow> bool" where
  "iteration_order ord m = (distinct ord \<and> set ord = dom m)"

type_synonym 'e visitor = "RawEntry \<Rightarrow> 'e \<Rightarrow> bool \<times> 'e"

fun doEnumerateRaw_range ::
  "(bytes \<rightharpoonup> Item) \<Rightarrow> bytes \<Rightarrow> bytes \<Rightarrow> bool \<Rightarrow> 'e visitor \<Rightarrow> bytes list \<Rightarrow> 'e \<Rightarrow> 'e" where
  "doEnumerateRaw_range m prefixStr seekStr onlyKeys cb [] env = env"
| "doEnumerateRaw_range m prefixStr seekStr onlyKeys cb (key # rest) env =
     (case m key of
        None \<Rightarrow> doEnumerateRaw_range m prefixStr seekStr onlyKeys cb rest env
      | Some item \<Rightarrow>
          (case Object item of
             ByteSlice val \<Rightarrow>
               if HasPrefix key prefixStr \<and> string_ge key seekStr
               then (let re = \<lparr>Key = Some key, Value = None,
                                Ttl = Expiration item, Version = Expiration item\<rparr>;
                         re = (if \<not> onlyKeys then re\<lparr>Value := val\<rparr> else re)
                     in case cb re env of
                          (continue, env) \<Rightarrow>
                            if \<not> continue then env
                            else doEnumerateRaw_range m prefixStr seekStr onlyKeys cb rest env)
               else doEnumerateRaw_range m prefixStr seekStr onlyKeys cb rest env
           | _ \<Rightarrow> doEnumerateRaw_range m prefixStr seekStr onlyKeys cb rest env))"

definition doEnumerateRaw ::
  "int64 \<Rightarrow> bytes list \<Rightarrow> slice \<Rightarrow> slice \<Rightarrow> int64 \<Rightarrow> bool \<Rightarrow> 'e visitor \<Rightarrow> 'e \<Rightarrow> Cache
     \<Rightarrow> error option \<times> 'e" where
  "doEnumerateRaw now ord prefix seek batchSize onlyKeys cb env c =
     (let prefixStr = string_of prefix;
          seekStr = string_of seek
      in (None, doEnumerateRaw_range (cache_Items now c) prefixStr seekStr onlyKeys cb ord env))"

text \<open>The loop \<open>for j := n-1; j >= 0; j--\<close>, counted by the number of entries still
  to visit.\<close>

fun EnumerateRaw_loop :: "'e visitor \<Rightarrow> RawEntry list \<Rightarrow> nat \<Rightarrow> 'e \<Rightarrow> 'e" where
  "EnumerateRaw_loop cb cache 0 env = env"
| "EnumerateRaw_loop cb cache (Suc j) env =
     (case cb (cache ! j) env of
        (continue, env) \<Rightarrow> if \<not> continue then env else EnumerateRaw_loop cb cache j env)"

text \<open>The closure reverse mode passes down: it appends the entry to the captured
  slice \<open>cache\<close> and asks for more.\<close>

definition EnumerateRaw_collect :: "RawEntry list visitor" where
  "EnumerateRaw_collect entry cache = (True, cache @ [entry])"

definition EnumerateRaw ::
  "int64 \<Rightarrow> bytes list \<Rightarrow> slice \<Rightarrow> slice \<Rightarrow> int64 \<Rightarrow> bool \<Rightarrow> bool \<Rightarrow> 'e visitor \<Rightarrow> 'e \<Rightarrow> Cache
     \<Rightarrow> error option \<times> 'e" where
  "EnumerateRaw now ord prefix seek batchSize onlyKeys reverse cb env c =
     (if reverse
      then (case doEnumerateRaw now ord prefix seek batchSize onlyKeys
                   EnumerateRaw_collect [] c of
              (err, cache) \<Rightarrow>
                if err \<noteq> None then (err, env)
                else (let n = length cache in (None, EnumerateRaw_loop cb cache n env)))
      else doEnumerateRaw now ord prefix seek batchSize onlyKeys cb env c)"

subsection \<open>Bulk operations\<close>

fun DropWithPrefix_range :: "(bytes \<rightharpoonup> Item) \<Rightarrow> bytes \<Rightarrow> bytes list \<Rightarrow> Cache \<Rightarrow> Cache" where
  "DropWithPrefix_range m prefixStr [] c = c"
| "DropWithPrefix_range m prefixStr (key # rest) c =
     (case m key of
        None \<Rightarrow> DropWithPrefix_range m prefixStr rest c
      | Some item \<Rightarrow>
          if HasPrefix key prefixStr
          then DropWithPrefix_range m prefixStr rest (cache_Delete key c)
          else DropWithPrefix_range m prefixStr rest c)"

definition DropWithPrefix :: "int64 \<Rightarrow> bytes list \<Rightarrow> slice \<Rightarrow> Cache \<Rightarrow> error option \<times> Cache" where
  "DropWithPrefix now ord prefix c =
     (let prefixStr = string_of prefix
      in (None, DropWithPrefix_range (cache_Items now c) prefixStr ord c))"

subsection \<open>Sequential calls\<close>

text \<open>A run of \<open>IncrementRaw\<close> calls on one key, one after the other, each with its two
  clock readings; the run returns what each call returned and the store it leaves.\<close>

fun Increment_calls ::
  "(int64 \<times> int64) list \<Rightarrow> slice \<Rightarrow> int64 \<Rightarrow> int64 \<Rightarrow> int64 \<Rightarrow> Cache
     \<Rightarrow> (int64 \<times> error option) list \<times> Cache" where
  "Increment_calls [] key initial delta ttlSeconds c = ([], c)"
| "Increment_calls ((now_get, now_set) # clock) key initial delta ttlSeconds c =
     (case IncrementRaw now_get now_set key initial delta ttlSeconds c of
        (prev, err, c) \<Rightarrow>
          (case Increment_calls clock key initial delta ttlSeconds c of
             (rets, c) \<Rightarrow> ((prev, err) # rets, c)))"

text \<open>Every call of such a run finds the key when it reads: the entry the call before
  wrote has not expired.\<close>

fun Increment_finds :: "(int64 \<times> int64) list \<Rightarrow> slice \<Rightarrow> int64 \<Rightarrow> int64 \<Rightarrow> int64 \<Rightarrow> Cache \<Rightarrow> bool" where
  "Increment_finds [] key initial delta ttlSeconds c = True"
| "Increment_finds ((now_get, now_set) # clock) key initial delta ttlSeconds c =
     (snd (cache_Get now_get (string_of key) c) \<and>
      Increment_finds clock key initial delta ttlSeconds
        (snd (snd (IncrementRaw now_get now_set key initial delta ttlSeconds c))))"

section \<open>Notions used in the statements and proofs\<close>

text \<open>The bytes the engine holds under a key at a clock reading: what the three
  methods that read before they answer or write (\<open>getImpl\<close>, \<open>UpdateRaw\<close>,
  \<open>TouchRaw\<close>) compute from \<open>cache.Get\<close>.\<close>

definition stored :: "int64 \<Rightarrow> bytes \<Rightarrow> Cache \<Rightarrow> slice" where
  "stored now k c =
     (case items c k of
        None \<Rightarrow> None
      | Some item \<Rightarrow>
          if Expired now item then None
          else (case Object item of ByteSlice b \<Rightarrow> b | _ \<Rightarrow> None))"

text \<open>The test \<open>doEnumerateRaw\<close> applies to a key of the snapshot.\<close>

definition candidate :: "(bytes \<rightharpoonup> Item) \<Rightarrow> bytes \<Rightarrow> bytes \<Rightarrow> bytes \<Rightarrow> bool" where
  "candidate m prefixStr seekStr key =
     (case m key of
        None \<Rightarrow> False
      | Some item \<Rightarrow>
          (case Object item of
             ByteSlice val \<Rightarrow> HasPrefix key prefixStr \<and> string_ge key seekStr
           | _ \<Rightarrow> False))"

text \<open>The entry \<open>doEnumerateRaw\<close> builds for a key of the snapshot.\<close>

definition entry_of :: "(bytes \<rightharpoonup> Item) \<Rightarrow> bool \<Rightarrow> bytes \<Rightarrow> RawEntry" where
  "entry_of m onlyKeys key =
     (case m key of
        None \<Rightarrow> \<lparr>Key = Some key, Value = None, Ttl = 0, Version = 0\<rparr>
      | Some item \<Rightarrow>
          \<lparr>Key = Some key,
           Value = (case Object item of ByteSlice val \<Rightarrow> if onlyKeys then None else val | _ \<Rightarrow> None),
           Ttl = Expiration item, Version = Expiration item\<rparr>)"

text \<open>Delivery of a sequence of entries to a visitor: one entry after the other, until
  the visitor asks to stop.\<close>

fun deliver :: "'e visitor \<Rightarrow> RawEntry list \<Rightarrow> 'e \<Rightarrow> 'e" where
  "deliver cb [] env = env"
| "deliver cb (entry # entries) env =
     (case cb entry env of
        (continue, env) \<Rightarrow> if \<not> continue then env else deliver cb entries env)"

text \<open>The engine holds, under a key, the eight bytes of a counter value (expired or
  not).\<close>

definition counter_in :: "Cache \<Rightarrow> bytes \<Rightarrow> int64 \<Rightarrow> bool" where
  "counter_in c k m =
     (case items c k of
        None \<Rightarrow> False
      | Some item \<Rightarrow> Object item = ByteSlice (Some (PutUint64 (make_bytes 8) m)))"

text \<open>A store with the keys \<open>a1\<close>, \<open>a2\<close> and \<open>b1\<close>, for the examples.\<close>

definition example_store :: Cache where
  "example_store =
     snd (SetRaw 0 (Some [98, 49]) (Some [3]) 0
       (snd (SetRaw 0 (Some [97, 50]) (Some [2]) 0
         (snd (SetRaw 0 (Some [97, 49]) (Some [1]) 0 NewDefault)))))"





section \<open>Bytes, strings and clock arithmetic\<close>

text \<open>
  \<open>PutUint64\<close> on a fresh eight-byte slice writes the eight bytes of the value, most
  significant first, and \<open>Uint64\<close> reads them back.
\<close>

lemma PutUint64_make: "PutUint64 (make_bytes 8) v =
  [ucast (drop_bit 56 v), ucast (drop_bit 48 v), ucast (drop_bit 40 v), ucast (drop_bit 32 v),
   ucast (drop_bit 24 v), ucast (drop_bit 16 v), ucast (drop_bit 8 v), ucast v]"
  by (simp add: PutUint64_def make_bytes_def numeral_eq_Suc)

lemma len_PutUint64: "length (PutUint64 (make_bytes 8) v) = 8"
  by (simp add: PutUint64_def make_bytes_def)

lemma byte_step:
  "push_bit k (ucast (ucast (drop_bit k v) :: byte)) OR take_bit k v = take_bit (k + 8) (v :: 64 word)"
  by (rule bit_word_eqI) (auto simp add: bit_simps)

lemma Uint64_PutUint64: "Uint64 (PutUint64 (make_bytes 8) v) = v"
proof -
  have s: "take_bit k v OR push_bit k (ucast (ucast (drop_bit k v) :: byte)) = take_bit (k + 8) v"
    for k
    using byte_step [of k v] by (simp add: or.commute)
  have s0: "ucast (ucast v :: byte) = take_bit 8 v"
    using s [of 0] by simp
  have "Uint64 (PutUint64 (make_bytes 8) v) = take_bit 64 v"
    unfolding PutUint64_make Uint64_def
    apply (simp add: or.assoc [symmetric] del: or.assoc)
    apply (simp only: s0)
    apply (simp only: s [of 8, simplified])
    apply (simp only: s [of 16, simplified])
    apply (simp only: s [of 24, simplified])
    apply (simp only: s [of 32, simplified])
    apply (simp only: s [of 40, simplified])
    apply (simp only: s [of 48, simplified])
    apply (simp only: s [of 56, simplified])
    done
  then show ?thesis by (simp add: take_bit_word_eq_self)
qed

text \<open>
  \<open>HasPrefix\<close> is "starts with", and \<open>string_ge\<close> is the lexicographic order
  on byte strings of the library.
\<close>

lemma HasPrefix_append: "HasPrefix s p = (\<exists>t. s = p @ t)"
  unfolding HasPrefix_def
  by (metis append_eq_conv_conj append_take_drop_id le_add1 length_append)

lemma string_ge_lexord: "string_ge a b = (b \<le> a)"
  by (induction a b rule: string_ge.induct) auto

text \<open>
  Signed comparisons read through \<open>sint\<close>; a TTL whose nanoseconds fit in 63 bits
  is multiplied and added without wrapping.
\<close>

lemma sless_sint: "(a <s b) = (sint a < sint b)" for a b :: int64
  by (rule word_sless_alt)

lemma sle_sint: "(a \<le>s b) = (sint a \<le> sint b)" for a b :: int64
  by (rule word_sle_eq)

lemma sint_Second_mult:
  assumes "0 < sint t" "10 ^ 9 * sint t < 2 ^ 63"
  shows "sint (Second * t) = 10 ^ 9 * sint (t :: int64)"
proof -
  have "sint (Second * t) = signed_take_bit 63 (sint Second * sint t)"
    by (simp add: sint_word_ariths)
  also have "sint Second = 10 ^ 9" by (simp add: Second_def)
  also have "signed_take_bit 63 (10 ^ 9 * sint t) = 10 ^ 9 * sint t"
    using assms by (intro signed_take_bit_int_eq_self) simp_all
  finally show ?thesis .
qed

lemma sint_add_no_overflow:
  assumes "0 \<le> sint a" "0 \<le> sint b" "sint a + sint b < 2 ^ 63"
  shows "sint (a + b) = sint a + sint (b :: int64)"
proof -
  have "sint (a + b) = signed_take_bit 63 (sint a + sint b)"
    by (simp add: sint_word_ariths)
  also have "\<dots> = sint a + sint b"
    using assms by (intro signed_take_bit_int_eq_self) simp_all
  finally show ?thesis .
qed

lemma sint_word_of_nat: "n < 2 ^ 63 \<Longrightarrow> sint (word_of_nat n :: int64) = int n"
  by (simp add: signed_of_nat signed_take_bit_int_eq_self)

lemma Expired_mono: "Expired now item \<Longrightarrow> now \<le>s now' \<Longrightarrow> Expired now' item"
  by (auto simp add: Expired_def word_sless_alt word_sle_eq)

section \<open>What the methods do to the engine\<close>

lemma items_cache_Set: "items (cache_Set now k x d c) = (items c)(k \<mapsto> \<lparr>Object = x, Expiration = (if 0 <s (if d = DefaultExpiration then defaultExpiration c else d) then now + (if d = DefaultExpiration then defaultExpiration c else d) else 0)\<rparr>)"
  by (simp add: cache_Set_def Let_def)

lemma defaultExpiration_cache_Set: "defaultExpiration (cache_Set now k x d c) = defaultExpiration c"
  by (simp add: cache_Set_def Let_def)

lemma getImpl_stored:
  "getImpl now key required c =
     (if stored now (string_of key) c = None \<and> required then Inl ErrNotExist
      else Inr (stored now (string_of key) c))"
  by (simp add: getImpl_def stored_def cache_Get_def Let_def split: option.splits object.splits)

lemma GetRaw_False: "GetRaw now key False c = Inr (stored now (string_of key) c)"
  by (simp add: GetRaw_def getImpl_stored)

lemma write_through_empty: "write_through b Map.empty = b"
  by (simp add: write_through_def map_nth)

lemma length_write_through: "length (write_through b w) = length b"
  by (simp add: write_through_def)


lemma written_through_empty: "written_through now k Map.empty c = c"
  by (auto simp add: written_through_def cache_Get_def write_through_empty map_upd_triv
      split: option.splits object.splits bool.splits)





lemma UpdateRaw_stored:
  "UpdateRaw now_get now_set key cb env c =
     (let r = cb \<lparr>Key = key, Value = stored now_get (string_of key) c, Ttl = NoTTL, Version = 0\<rparr> env;
          c' = written_through now_get (string_of key) (value_writes r) c
      in if \<not> commit r then (Some ErrCanceled, env_left r, c')
         else (None, env_left r,
               cache_Set now_set (string_of (map_option (\<lambda>k. write_through k (key_writes r)) key))
                 (ByteSlice (Value (entry_left r)))
                 (if 0 <s Ttl (entry_left r) then Second * Ttl (entry_left r) else NoExpiration) c'))"
  by (simp add: UpdateRaw_def stored_def cache_Get_def Let_def split: option.splits object.splits)

lemma stored_cache_Set:
  "stored now' k (cache_Set now k (ByteSlice v) d c) =
     (if Expired now' \<lparr>Object = ByteSlice v, Expiration =
           (if 0 <s (if d = DefaultExpiration then defaultExpiration c else d)
            then now + (if d = DefaultExpiration then defaultExpiration c else d) else 0)\<rparr>
      then None else v)"
  by (simp add: stored_def items_cache_Set)

lemma IncrementRaw_stored:
  "IncrementRaw now_get now_set key initial delta ttlSeconds c =
     (let cur = stored now_get (string_of key) c;
          prev = (if 8 \<le> len cur then Uint64 (string_of cur) else initial)
      in (prev, None,
          cache_Set now_set (string_of key) (ByteSlice (Some (PutUint64 (make_bytes 8) (prev + delta))))
            (if 0 <s ttlSeconds then Second * ttlSeconds else NoExpiration) c))"
  by (simp add: IncrementRaw_def UpdateRaw_stored IncrementRaw_cb_def Let_def written_through_empty
      write_through_empty option.map_ident)

text \<open>
  Evaluation of the examples: the definitions a closed term unfolds to, and the
  example store written out.
\<close>

lemmas eval_defs = GetRaw_def getImpl_def SetRaw_def cache_Get_def cache_Set_def NewDefault_def New_def
  OpenDatabase_def cache_New_def Let_def NoExpiration_def DefaultExpiration_def Second_def Hour_def
  Expired_def string_of_def word_sless_alt word_sle_eq cache_Items_def FromCache_def

lemma example_store_eq:
  "example_store = \<lparr>defaultExpiration = - 1,
     items = [[97, 49] \<mapsto> \<lparr>Object = ByteSlice (Some [1]), Expiration = 0\<rparr>,
              [97, 50] \<mapsto> \<lparr>Object = ByteSlice (Some [2]), Expiration = 0\<rparr>,
              [98, 49] \<mapsto> \<lparr>Object = ByteSlice (Some [3]), Expiration = 0\<rparr>]\<rparr>"
  by (simp add: example_store_def SetRaw_def cache_Set_def NewDefault_def New_def
  OpenDatabase_def cache_New_def Let_def NoExpiration_def DefaultExpiration_def string_of_def word_sless_alt)

lemma example_store_order:
  "iteration_order [[98, 49], [97, 50], [97, 49]] (cache_Items 5 example_store)"
  unfolding example_store_eq
  by (auto simp add: iteration_order_def cache_Items_def Expired_def word_sless_alt dom_def split: if_splits)

lemma example_enum:
  "map Key (snd (EnumerateRaw 5 [[98, 49], [97, 50], [97, 49]] (Some [97]) None 0 False False
          EnumerateRaw_collect [] example_store)) = [Some [97, 50], Some [97, 49]]"
  unfolding example_store_eq
  by (simp add: cache_Items_def Expired_def word_sless_alt string_of_def HasPrefix_def EnumerateRaw_def
      doEnumerateRaw_def EnumerateRaw_collect_def)

lemma example_drop:
  "GetRaw 6 (Some [97, 49]) True
        (snd (DropWithPrefix 5 [[98, 49], [97, 50], [97, 49]] (Some [97]) example_store)) = Inl ErrNotExist"
  "GetRaw 6 (Some [98, 49]) True
        (snd (DropWithPrefix 5 [[98, 49], [97, 50], [97, 49]] (Some [97]) example_store)) = Inr (Some [3])"
  unfolding example_store_eq
  by (simp_all add: GetRaw_def getImpl_def cache_Get_def cache_Items_def Expired_def word_sless_alt
      string_of_def HasPrefix_def DropWithPrefix_def cache_Delete_def)

section \<open>Get on a key that was never set\<close>

text \<open>
  C7. A key the engine holds nothing under (no method has written it) is reported by
  \<open>GetRaw\<close> with the Not-Found error \<open>os.ErrNotExist\<close> when \<open>required\<close> is true,
  and as a nil value with no error when \<open>required\<close> is false. This is so for every
  key of a store just made by \<open>New\<close>, whatever the options.
\<close>

theorem GetRaw_never_set:
  "(items c (string_of key) = None \<longrightarrow>
      GetRaw now key True c = Inl ErrNotExist \<and> GetRaw now key False c = Inr None)
   \<and> GetRaw now key True (New options) = Inl ErrNotExist
   \<and> GetRaw now key False (New options) = Inr None"
  by (simp add: GetRaw_def getImpl_stored stored_def New_def OpenDatabase_def cache_New_def Let_def)

text \<open>
  The instance: a freshly opened store holds nothing under the key \<open>k\<close>.
\<close>

theorem GetRaw_never_set_witness:
  "items NewDefault (string_of (Some [107])) = None
   \<and> GetRaw 0 (Some [107]) True NewDefault = Inl ErrNotExist
   \<and> GetRaw 0 (Some [107]) False NewDefault = Inr None"
proof -
  have h: "items NewDefault (string_of (Some [107])) = None"
    by (simp add: NewDefault_def New_def OpenDatabase_def cache_New_def)
  from GetRaw_never_set [of NewDefault "Some [107]" 0] h show ?thesis by simp
qed

section \<open>Get on a present key\<close>

text \<open>
  C8, as the code has it. When the engine holds a byte slice under the key (and it has
  not expired), \<open>GetRaw\<close> with \<open>required\<close> true returns the slice without error
  when the slice is not nil, the empty slice included, and fails with \<open>os.ErrNotExist\<close>
  when the slice is nil; with \<open>required\<close> false it returns the slice, nil or not,
  without error. A present key with nil bytes is thus reported like an absent one: the
  test \<open>val == nil && required\<close> of \<open>getImpl\<close> does not ask whether the key was
  found.
\<close>

theorem GetRaw_present:
  "cache_Get now (string_of key) c = (ByteSlice val, True) \<Longrightarrow>
     GetRaw now key True c = (if val = None then Inl ErrNotExist else Inr val)
     \<and> GetRaw now key False c = Inr val"
  by (simp add: GetRaw_def getImpl_def)

text \<open>
  The instance: the empty, non-nil value is present.
\<close>

theorem GetRaw_present_witness:
  "cache_Get 1 (string_of (Some [107])) (snd (SetRaw 0 (Some [107]) (Some []) 0 NewDefault)) = (ByteSlice (Some []), True)
   \<and> GetRaw 1 (Some [107]) True (snd (SetRaw 0 (Some [107]) (Some []) 0 NewDefault)) = Inr (Some [])
   \<and> GetRaw 1 (Some [107]) False (snd (SetRaw 0 (Some [107]) (Some []) 0 NewDefault)) = Inr (Some [])"
proof -
  have h: "cache_Get 1 (string_of (Some [107])) (snd (SetRaw 0 (Some [107]) (Some []) 0 NewDefault)) =
             (ByteSlice (Some []), True)"
    by (simp add: eval_defs)
  from GetRaw_present [OF h] h show ?thesis by simp
qed

text \<open>
  The claim as stated fails for nil bytes: \<open>TouchRaw\<close> on a fresh key stores a nil
  slice under it, the engine then finds the key, and \<open>GetRaw\<close> with \<open>required\<close>
  true fails with \<open>os.ErrNotExist\<close>.
\<close>

theorem GetRaw_nil_counterexample:
  "cache_Get 1 (string_of (Some [107])) (snd (TouchRaw 0 0 (Some [107]) 0 NewDefault)) = (ByteSlice None, True)
   \<and> GetRaw 1 (Some [107]) True (snd (TouchRaw 0 0 (Some [107]) 0 NewDefault)) = Inl ErrNotExist"
  by (simp add: eval_defs TouchRaw_def)

section \<open>Set, then Get\<close>

lemma GetRaw_SetRaw_no_ttl:
  assumes "ttlSeconds \<le>s 0"
  shows "GetRaw now' key required (snd (SetRaw now key v ttlSeconds c)) =
           (if v = None \<and> required then Inl ErrNotExist else Inr v)"
proof -
  from assms have "\<not> 0 <s ttlSeconds"
    by (simp add: sless_sint sle_sint)
  then show ?thesis
    by (simp add: GetRaw_def getImpl_stored SetRaw_def stored_cache_Set NoExpiration_def
        DefaultExpiration_def Expired_def sless_sint)
qed

lemma GetRaw_SetRaw_ttl:
  assumes "0 <s ttlSeconds" "0 \<le>s now" "sint now + 10 ^ 9 * sint ttlSeconds < 2 ^ 63"
  shows "GetRaw now' key required (snd (SetRaw now key v ttlSeconds c)) =
           (if sint now' \<le> sint now + 10 ^ 9 * sint ttlSeconds
            then (if v = None \<and> required then Inl ErrNotExist else Inr v)
            else (if required then Inl ErrNotExist else Inr None))"
proof -
  from assms have t: "0 < sint ttlSeconds" and n: "0 \<le> sint now"
    by (simp_all add: sless_sint sle_sint)
  from assms(3) n have "10 ^ 9 * sint ttlSeconds < 2 ^ 63" by simp
  with t have d: "sint (Second * ttlSeconds) = 10 ^ 9 * sint ttlSeconds"
    by (rule sint_Second_mult)
  with t have dpos: "0 < sint (Second * ttlSeconds)" by simp
  then have dne: "Second * ttlSeconds \<noteq> 0" by auto
  have e: "sint (now + Second * ttlSeconds) = sint now + 10 ^ 9 * sint ttlSeconds"
    using sint_add_no_overflow [of now "Second * ttlSeconds"] n dpos assms(3) d by simp
  with n t have epos: "0 < sint (now + Second * ttlSeconds)" by simp
  show ?thesis
    using assms(1) dne dpos epos e
    by (simp add: GetRaw_def getImpl_stored SetRaw_def stored_cache_Set
        DefaultExpiration_def Expired_def sless_sint not_less)
qed

text \<open>
  C1, as the code has it. \<open>SetRaw\<close> returns no error. After \<open>SetRaw\<close> at the clock
  reading \<open>now\<close>, \<open>GetRaw\<close> at the reading \<open>now'\<close> returns the value set (a nil
  value under \<open>required\<close> is reported as \<open>os.ErrNotExist\<close>, as for an absent key)
  \<^item> at every \<open>now'\<close> when the TTL is not positive;
  \<^item> at every \<open>now'\<close> up to and including \<open>now + ttl * 10^9\<close> when the TTL is
    positive, the clock is not before the Unix epoch and that instant is below \<open>2^63\<close>
    nanoseconds, so that neither \<open>time.Second * ttl\<close> nor the addition wraps;
    after that instant \<open>GetRaw\<close> answers as for an absent key.
\<close>

theorem SetRaw_then_GetRaw:
  "fst (SetRaw now key v ttlSeconds c) = None
   \<and> (ttlSeconds \<le>s 0 \<longrightarrow>
        GetRaw now' key required (snd (SetRaw now key v ttlSeconds c)) =
          (if v = None \<and> required then Inl ErrNotExist else Inr v))
   \<and> (0 <s ttlSeconds \<and> 0 \<le>s now \<and> sint now + 10 ^ 9 * sint ttlSeconds < 2 ^ 63 \<longrightarrow>
        GetRaw now' key required (snd (SetRaw now key v ttlSeconds c)) =
          (if sint now' \<le> sint now + 10 ^ 9 * sint ttlSeconds
           then (if v = None \<and> required then Inl ErrNotExist else Inr v)
           else (if required then Inl ErrNotExist else Inr None)))"
  using GetRaw_SetRaw_no_ttl [of ttlSeconds now' key required now v c]
    GetRaw_SetRaw_ttl [of ttlSeconds now now' key required v c]
  by (simp add: SetRaw_def)

text \<open>
  The instance: a TTL of 60 seconds, read 30 and 61 seconds after the write, and no TTL.
\<close>

theorem SetRaw_then_GetRaw_witness:
  "0 <s (60 :: int64) \<and> 0 \<le>s (1700000000000000000 :: int64)
   \<and> sint (1700000000000000000 :: int64) + 10 ^ 9 * sint (60 :: int64) < 2 ^ 63
   \<and> GetRaw 1700000030000000000 (Some [107]) True
        (snd (SetRaw 1700000000000000000 (Some [107]) (Some [118]) 60 NewDefault)) = Inr (Some [118])
   \<and> GetRaw 1700000061000000000 (Some [107]) True
        (snd (SetRaw 1700000000000000000 (Some [107]) (Some [118]) 60 NewDefault)) = Inl ErrNotExist
   \<and> (0 :: int64) \<le>s 0
   \<and> GetRaw 1700000061000000000 (Some [107]) True
        (snd (SetRaw 1700000000000000000 (Some [107]) (Some [118]) 0 NewDefault)) = Inr (Some [118])"
  using SetRaw_then_GetRaw [of 1700000000000000000 "Some [107]" "Some [118]" 60 NewDefault 1700000030000000000 True]
    SetRaw_then_GetRaw [of 1700000000000000000 "Some [107]" "Some [118]" 60 NewDefault 1700000061000000000 True]
    SetRaw_then_GetRaw [of 1700000000000000000 "Some [107]" "Some [118]" 0 NewDefault 1700000061000000000 True]
  by (simp add: word_sless_alt word_sle_eq)

text \<open>
  The claim as stated, for every integer TTL, fails where \<open>time.Second * ttl\<close> wraps
  around: a TTL of 18446744074 seconds (some 584 years) becomes a duration of
  290448384 nanoseconds, and one second after the write the entry is gone.
\<close>

theorem SetRaw_then_GetRaw_overflow:
  "0 <s (18446744074 :: int64)
   \<and> sint (1700000001000000000 :: int64) < sint (1700000000000000000 :: int64) + 10 ^ 9 * sint (18446744074 :: int64)
   \<and> GetRaw 1700000001000000000 (Some [107]) False
       (snd (SetRaw 1700000000000000000 (Some [107]) (Some [118]) 18446744074 NewDefault)) = Inr None"
  by (simp add: GetRaw_def getImpl_def SetRaw_def cache_Get_def cache_Set_def NewDefault_def New_def
      OpenDatabase_def cache_New_def Let_def NoExpiration_def DefaultExpiration_def Second_def
      Expired_def string_of_def sless_sint Hour_def)

section \<open>Update\<close>







section \<open>Increment\<close>

lemma IncrementRaw_found:
  assumes "counter_in c (string_of key) m" "snd (cache_Get now_get (string_of key) c)"
  shows "fst (IncrementRaw now_get now_set key initial delta ttlSeconds c) = m"
    and "fst (snd (IncrementRaw now_get now_set key initial delta ttlSeconds c)) = None"
    and "counter_in (snd (snd (IncrementRaw now_get now_set key initial delta ttlSeconds c)))
           (string_of key) (m + delta)"
  using assms
  by (auto simp add: IncrementRaw_stored stored_def counter_in_def cache_Get_def len_def string_of_def
      len_PutUint64 Uint64_PutUint64 items_cache_Set Let_def split: option.splits if_splits)

lemma IncrementRaw_absent:
  assumes "items c (string_of key) = None"
  shows "fst (IncrementRaw now_get now_set key initial delta ttlSeconds c) = initial"
    and "fst (snd (IncrementRaw now_get now_set key initial delta ttlSeconds c)) = None"
    and "counter_in (snd (snd (IncrementRaw now_get now_set key initial delta ttlSeconds c)))
           (string_of key) (initial + delta)"
  using assms
  by (auto simp add: IncrementRaw_stored stored_def counter_in_def len_def items_cache_Set Let_def)

lemma Increment_calls_found:
  assumes "counter_in c (string_of key) m" "Increment_finds clock key initial 1 ttlSeconds c"
  shows "fst (Increment_calls clock key initial 1 ttlSeconds c) =
           map (\<lambda>i. (m + word_of_nat i, None)) [0..<length clock]
         \<and> counter_in (snd (Increment_calls clock key initial 1 ttlSeconds c)) (string_of key)
             (m + word_of_nat (length clock))"
  using assms
proof (induction clock arbitrary: m c)
  case Nil
  then show ?case by simp
next
  case (Cons t clock)
  obtain g s where t: "t = (g, s)" by (cases t)
  let ?c = "snd (snd (IncrementRaw g s key initial 1 ttlSeconds c))"
  from Cons.prems t have f: "snd (cache_Get g (string_of key) c)"
    and r: "Increment_finds clock key initial 1 ttlSeconds ?c"
    by simp_all
  note step = IncrementRaw_found [OF Cons.prems(1) f, of s initial 1 ttlSeconds]
  from Cons.IH [OF step(3) r]
  have rest: "fst (Increment_calls clock key initial 1 ttlSeconds ?c) =
      map (\<lambda>i. (m + 1 + word_of_nat i, None)) [0..<length clock]"
    and rest': "counter_in (snd (Increment_calls clock key initial 1 ttlSeconds ?c)) (string_of key)
      (m + 1 + word_of_nat (length clock))"
    by simp_all
  have "map (\<lambda>i. (m + word_of_nat i, None :: error option)) [0..<length (t # clock)] =
        (m, None) # map (\<lambda>i. (m + 1 + word_of_nat i, None)) [0..<length clock]"
    by (simp add: upt_conv_Cons map_Suc_upt [symmetric] add.assoc del: upt_Suc)
  then show ?case
    using rest rest' step(1,2) by (simp add: t case_prod_beta add.assoc del: upt_Suc)
qed

lemma counter_in_GetRaw:
  "counter_in c (string_of key) m \<Longrightarrow> snd (cache_Get now (string_of key) c) \<Longrightarrow>
     GetRaw now key required c = Inr (Some (PutUint64 (make_bytes 8) m))"
  by (auto simp add: GetRaw_def getImpl_stored stored_def counter_in_def cache_Get_def
      split: option.splits if_splits)

lemma cache_Get_never_expires:
  "items c k = Some item \<Longrightarrow> Expiration item = 0 \<Longrightarrow> snd (cache_Get now k c)"
  by (simp add: cache_Get_def Expired_def word_sless_alt)

lemma IncrementRaw_no_ttl:
  assumes "\<not> 0 <s ttlSeconds"
  shows "\<exists>item. items (snd (snd (IncrementRaw now_get now_set key initial delta ttlSeconds c)))
            (string_of key) = Some item \<and> Expiration item = 0"
  using assms
  by (simp add: IncrementRaw_stored items_cache_Set Let_def NoExpiration_def DefaultExpiration_def
      word_sless_alt)

lemma Increment_finds_no_ttl:
  assumes "\<not> 0 <s ttlSeconds" "items c (string_of key) = Some item" "Expiration item = 0"
  shows "Increment_finds clock key initial delta ttlSeconds c"
  using assms(2,3)
proof (induction clock arbitrary: c item)
  case Nil
  then show ?case by simp
next
  case (Cons t clock)
  obtain g s where t: "t = (g, s)" by (cases t)
  from IncrementRaw_no_ttl [OF assms(1), of g s key initial delta c]
  obtain item' where "items (snd (snd (IncrementRaw g s key initial delta ttlSeconds c)))
            (string_of key) = Some item'" "Expiration item' = 0"
    by blast
  then have "Increment_finds clock key initial delta ttlSeconds
      (snd (snd (IncrementRaw g s key initial delta ttlSeconds c)))"
    by (rule Cons.IH)
  with Cons.prems show ?case
    by (simp add: t cache_Get_never_expires)
qed

lemma Increment_calls_no_ttl:
  assumes "\<not> 0 <s ttlSeconds" "clock \<noteq> []"
  shows "\<exists>item. items (snd (Increment_calls clock key initial delta ttlSeconds c)) (string_of key) = Some item
           \<and> Expiration item = 0"
  using assms(2)
proof (induction clock arbitrary: c)
  case Nil
  then show ?case by simp
next
  case (Cons t clock)
  obtain g s where t: "t = (g, s)" by (cases t)
  show ?case
  proof (cases "clock = []")
    case True
    with IncrementRaw_no_ttl [OF assms(1), of g s key initial delta c] show ?thesis
      by (simp add: t case_prod_beta)
  next
    case False
    from Cons.IH [OF False, of "snd (snd (IncrementRaw g s key initial delta ttlSeconds c))"]
    show ?thesis
      by (simp add: t case_prod_beta)
  qed
qed

lemma example_first:
  "snd (snd (IncrementRaw 1000 1000 (Some [107]) 0 1 60 NewDefault)) =
     \<lparr>defaultExpiration = - 1,
      items = [[107] \<mapsto> \<lparr>Object = ByteSlice (Some [0, 0, 0, 0, 0, 0, 0, 1]), Expiration = 60000001000\<rparr>]\<rparr>"
  by (simp add: IncrementRaw_stored stored_def PutUint64_make eval_defs len_def)

lemma example_second:
  "snd (snd (IncrementRaw 2000 2000 (Some [107]) 0 1 60
     \<lparr>defaultExpiration = - 1,
      items = [[107] \<mapsto> \<lparr>Object = ByteSlice (Some [0, 0, 0, 0, 0, 0, 0, 1]), Expiration = 60000001000\<rparr>]\<rparr>)) =
     \<lparr>defaultExpiration = - 1,
      items = [[107] \<mapsto> \<lparr>Object = ByteSlice (Some [0, 0, 0, 0, 0, 0, 0, 2]), Expiration = 60000002000\<rparr>]\<rparr>"
  by (simp add: IncrementRaw_stored stored_def PutUint64_make Uint64_def eval_defs len_def)

lemma example_finds:
  "Increment_finds [(2000, 2000), (3000, 3000)] (Some [107]) 0 1 60
     (snd (snd (IncrementRaw 1000 1000 (Some [107]) 0 1 60 NewDefault)))"
  by (simp add: example_first example_second cache_Get_def Expired_def word_sless_alt string_of_def)

text \<open>
  C3. \<open>IncrementRaw\<close> takes as the previous value the first eight bytes of the
  stored value, read big-endian, when the stored value has at least eight bytes, and
  \<open>initial\<close> otherwise (key absent, expired, or a shorter value); it returns that
  previous value with no error, and the store it leaves is the one \<open>SetRaw\<close> leaves
  with the eight big-endian bytes of previous value plus delta and the given TTL.
  The eight bytes written read back as the sum.

  Consequently, take a key the engine holds nothing under and a run of \<open>n\<close> calls
  with \<open>initial = 0\<close> and \<open>delta = 1\<close>, a first call and \<open>n - 1\<close> more, in which
  every later call finds the counter (it has not expired since the call before). The
  run returns \<open>0, 1, ..., n - 1\<close> without error (as 64-bit integers; these are the
  numbers themselves for \<open>n \<le> 2^63\<close>), and at any clock reading at which the counter
  is found, \<open>GetRaw\<close> returns the eight bytes of \<open>n\<close>. With a TTL that is not
  positive, the TTL of a call that gives none, every call finds the counter and so
  does every later read, whatever the clock readings.
\<close>

theorem IncrementRaw_counts:
  "IncrementRaw now_get now_set key initial delta ttlSeconds c =
     (let cur = projr (GetRaw now_get key False c);
          prev = (if 8 \<le> len cur then Uint64 (string_of cur) else initial)
      in (prev, None,
          snd (SetRaw now_set key (Some (PutUint64 (make_bytes 8) (prev + delta))) ttlSeconds c)))
   \<and> length (PutUint64 (make_bytes 8) w) = 8
   \<and> Uint64 (PutUint64 (make_bytes 8) w) = w
   \<and> (items c (string_of key) = None
        \<and> Increment_finds clock key 0 1 ttlSeconds
            (snd (snd (IncrementRaw now_get now_set key 0 1 ttlSeconds c))) \<longrightarrow>
        fst (Increment_calls ((now_get, now_set) # clock) key 0 1 ttlSeconds c) =
          map (\<lambda>i. (word_of_nat i, None)) [0..<Suc (length clock)]
        \<and> (Suc (length clock) \<le> 2 ^ 63 \<longrightarrow>
             map (\<lambda>r. sint (fst r)) (fst (Increment_calls ((now_get, now_set) # clock) key 0 1 ttlSeconds c)) =
               map int [0..<Suc (length clock)])
        \<and> (snd (cache_Get now (string_of key)
                  (snd (Increment_calls ((now_get, now_set) # clock) key 0 1 ttlSeconds c))) \<longrightarrow>
             GetRaw now key required
                 (snd (Increment_calls ((now_get, now_set) # clock) key 0 1 ttlSeconds c)) =
               Inr (Some (PutUint64 (make_bytes 8) (word_of_nat (Suc (length clock)))))))
   \<and> (ttlSeconds \<le>s 0 \<longrightarrow>
        Increment_finds clock key 0 1 ttlSeconds
          (snd (snd (IncrementRaw now_get now_set key 0 1 ttlSeconds c)))
        \<and> snd (cache_Get now (string_of key)
                (snd (Increment_calls ((now_get, now_set) # clock) key 0 1 ttlSeconds c))))"
proof -
  let ?c1 = "snd (snd (IncrementRaw now_get now_set key 0 1 ttlSeconds c))"
  let ?run = "Increment_calls ((now_get, now_set) # clock) key 0 1 ttlSeconds c"
  have one: "IncrementRaw now_get now_set key initial delta ttlSeconds c =
     (let cur = projr (GetRaw now_get key False c);
          prev = (if 8 \<le> len cur then Uint64 (string_of cur) else initial)
      in (prev, None,
          snd (SetRaw now_set key (Some (PutUint64 (make_bytes 8) (prev + delta))) ttlSeconds c)))"
    by (simp add: IncrementRaw_stored GetRaw_False SetRaw_def Let_def)
  have run: "fst ?run = map (\<lambda>i. (word_of_nat i, None)) [0..<Suc (length clock)]
        \<and> (Suc (length clock) \<le> 2 ^ 63 \<longrightarrow>
             map (\<lambda>r. sint (fst r)) (fst ?run) = map int [0..<Suc (length clock)])
        \<and> (snd (cache_Get now (string_of key) (snd ?run)) \<longrightarrow>
             GetRaw now key required (snd ?run) =
               Inr (Some (PutUint64 (make_bytes 8) (word_of_nat (Suc (length clock))))))"
    if fresh: "items c (string_of key) = None"
      and finds: "Increment_finds clock key 0 1 ttlSeconds ?c1"
  proof -
    note first = IncrementRaw_absent [OF fresh, of now_get now_set 0 1 ttlSeconds]
    from first(3) have c1: "counter_in ?c1 (string_of key) 1" by simp
    note rest = Increment_calls_found [OF c1 finds]
    have shift: "map (\<lambda>i. (word_of_nat i :: int64, None :: error option)) [0..<Suc (length clock)] =
        (0, None) # map (\<lambda>i. (1 + word_of_nat i, None)) [0..<length clock]"
      by (simp add: upt_conv_Cons map_Suc_upt [symmetric] del: upt_Suc)
    have r: "fst ?run = map (\<lambda>i. (word_of_nat i, None)) [0..<Suc (length clock)]"
      using first(1,2) rest shift by (simp add: case_prod_beta del: upt_Suc)
    have f: "counter_in (snd ?run) (string_of key) (word_of_nat (Suc (length clock)))"
      using rest by (simp add: case_prod_beta)
    have "map (\<lambda>r. sint (fst r)) (map (\<lambda>i. (word_of_nat i :: int64, None :: error option)) [0..<Suc (length clock)]) =
            map int [0..<Suc (length clock)]" if "Suc (length clock) \<le> 2 ^ 63"
      using that by (auto simp add: sint_word_of_nat simp del: upt_Suc)
    with r f show ?thesis
      by (auto simp add: counter_in_GetRaw simp del: upt_Suc)
  qed
  have forever: "Increment_finds clock key 0 1 ttlSeconds ?c1
        \<and> snd (cache_Get now (string_of key) (snd ?run))"
    if ttl: "ttlSeconds \<le>s 0"
  proof -
    from ttl have nt: "\<not> 0 <s ttlSeconds"
      by (simp add: word_sless_alt word_sle_eq)
    from IncrementRaw_no_ttl [OF nt, of now_get now_set key 0 1 c]
    have "Increment_finds clock key 0 1 ttlSeconds ?c1"
      using Increment_finds_no_ttl [OF nt] by blast
    moreover from Increment_calls_no_ttl [OF nt, of "(now_get, now_set) # clock" key 0 1 c]
    have "snd (cache_Get now (string_of key) (snd ?run))"
      using cache_Get_never_expires by blast
    ultimately show ?thesis by blast
  qed
  from one run forever len_PutUint64 [of w] Uint64_PutUint64 [of w] show ?thesis
    by blast
qed

text \<open>
  The instance: three calls on a fresh store, a microsecond apart with a TTL of
  60 seconds, and with no TTL.
\<close>

theorem IncrementRaw_counts_witness:
  "items NewDefault (string_of (Some [107])) = None
   \<and> Increment_finds [(2000, 2000), (3000, 3000)] (Some [107]) 0 1 60
        (snd (snd (IncrementRaw 1000 1000 (Some [107]) 0 1 60 NewDefault)))
   \<and> fst (Increment_calls [(1000, 1000), (2000, 2000), (3000, 3000)] (Some [107]) 0 1 60 NewDefault) =
        [(0, None), (1, None), (2, None)]
   \<and> (0 :: int64) \<le>s 0
   \<and> fst (Increment_calls [(1, 2), (3, 4), (5, 6)] (Some [107]) 0 1 0 NewDefault) =
        [(0, None), (1, None), (2, None)]
   \<and> GetRaw 9 (Some [107]) True (snd (Increment_calls [(1, 2), (3, 4), (5, 6)] (Some [107]) 0 1 0 NewDefault)) =
        Inr (Some [0, 0, 0, 0, 0, 0, 0, 3])
   \<and> Uint64 [0, 0, 0, 0, 0, 0, 1, 2] = 258"
proof -
  have fresh: "items NewDefault (string_of (Some [107])) = None"
    by (simp add: eval_defs)
  have le: "(0 :: int64) \<le>s 0"
    by simp
  have e: "PutUint64 (make_bytes 8) (word_of_nat (Suc (length [(3 :: int64, 4 :: int64), (5, 6)]))) =
             [0, 0, 0, 0, 0, 0, 0, 3]"
    by (simp add: PutUint64_make)
  have u: "Uint64 [0, 0, 0, 0, 0, 0, 1, 2] = 258"
    by (simp add: Uint64_def)
  have n: "map (\<lambda>i. (word_of_nat i :: int64, None :: error option)) [0..<Suc (length [x, y])] =
      [(0, None), (1, None), (2, None)]" for x y :: "int64 \<times> int64"
    by (simp add: upt_rec)
  note a = IncrementRaw_counts [of 1000 1000 "Some [107]" 0 1 60 NewDefault 0
      "[(2000, 2000), (3000, 3000)]" 0 True]
  note b = IncrementRaw_counts [of 1 2 "Some [107]" 0 1 0 NewDefault 0 "[(3, 4), (5, 6)]" 9 True]
  from a fresh example_finds
  have r1: "fst (Increment_calls [(1000, 1000), (2000, 2000), (3000, 3000)] (Some [107]) 0 1 60 NewDefault) =
        [(0, None), (1, None), (2, None)]"
    unfolding n by blast
  from b fresh le
  have r2: "fst (Increment_calls [(1, 2), (3, 4), (5, 6)] (Some [107]) 0 1 0 NewDefault) =
        [(0, None), (1, None), (2, None)]"
    and r3: "GetRaw 9 (Some [107]) True
        (snd (Increment_calls [(1, 2), (3, 4), (5, 6)] (Some [107]) 0 1 0 NewDefault)) =
        Inr (Some [0, 0, 0, 0, 0, 0, 0, 3])"
    unfolding n e by blast+
  from fresh example_finds r1 le r2 r3 u show ?thesis
    by (intro conjI)
qed

section \<open>CompareAndSet\<close>

text \<open>
  An item is not expired at the clock reading it was written at: when the duration is
  positive and \<open>now + d\<close> does not wrap around, the expiration is after \<open>now\<close>, and
  when it wraps around, the expiration is negative, which the engine reads as never.
\<close>

lemma not_Expired_when_set:
  "\<not> Expired now \<lparr>Object = x, Expiration = (if 0 <s d then now + d else 0)\<rparr>"
proof (cases "0 <s d")
  case False
  then show ?thesis by (simp add: Expired_def)
next
  case True
  then have d: "0 < sint d" by (simp add: sless_sint)
  have bd: "sint d < 2 ^ 63" "sint now < 2 ^ 63" "- (2 ^ 63) \<le> sint now"
    using sint_lt [of d] sint_lt [of now] sint_ge [of now] by simp_all
  have s: "sint (now + d) = signed_take_bit 63 (sint now + sint d)"
    by (simp add: sint_word_ariths)
  have "\<not> (0 < sint (now + d) \<and> sint (now + d) < sint now)"
  proof (cases "sint now + sint d < 2 ^ 63")
    case True
    have "signed_take_bit 63 (sint now + sint d) = sint now + sint d"
      using True d bd by (intro signed_take_bit_int_eq_self) simp_all
    with s d show ?thesis by simp
  next
    case False
    then have "signed_take_bit 63 (sint now + sint d) \<le> sint now + sint d - 2 ^ Suc 63"
      by (intro signed_take_bit_int_less_eq) simp
    with s bd show ?thesis by simp
  qed
  with True show ?thesis by (simp add: Expired_def sless_sint)
qed

lemma stored_when_set: "stored now k (cache_Set now k (ByteSlice v) d c) = v"
  by (simp only: stored_cache_Set not_Expired_when_set if_False)

text \<open>
  C4. \<open>CompareAndSetRaw\<close> reports success (\<open>true\<close>, no error) for every key, value, TTL
  and expected version, and the store it leaves is the one \<open>SetRaw\<close> leaves with the
  same key, value and TTL: the expected version plays no part. The write is made: in
  the store it leaves, the engine holds the value under the key, \<open>GetRaw\<close> of the key
  at the clock reading of the write returns the value, and so it does at every clock
  reading when the TTL is not positive. Every other key, and the default expiration of the
  engine, are as they were.
\<close>

theorem CompareAndSetRaw_is_SetRaw:
  "CompareAndSetRaw now key val ttlSeconds version c =
     (True, None, snd (SetRaw now key val ttlSeconds c))
   \<and> fst (SetRaw now key val ttlSeconds c) = None
   \<and> CompareAndSetRaw now key val ttlSeconds version c =
       CompareAndSetRaw now key val ttlSeconds version' c
   \<and> map_option Object (items (snd (snd (CompareAndSetRaw now key val ttlSeconds version c))) (string_of key)) =
       Some (ByteSlice val)
   \<and> GetRaw now key False (snd (snd (CompareAndSetRaw now key val ttlSeconds version c))) = Inr val
   \<and> (ttlSeconds \<le>s 0 \<longrightarrow>
        GetRaw now' key False (snd (snd (CompareAndSetRaw now key val ttlSeconds version c))) = Inr val)
   \<and> (\<forall>k. k \<noteq> string_of key \<longrightarrow>
        items (snd (snd (CompareAndSetRaw now key val ttlSeconds version c))) k = items c k)
   \<and> defaultExpiration (snd (snd (CompareAndSetRaw now key val ttlSeconds version c))) = defaultExpiration c"
proof -
  let ?ttl = "if 0 <s ttlSeconds then Second * ttlSeconds else NoExpiration"
  have c: "CompareAndSetRaw now key val ttlSeconds version c =
             (True, None, cache_Set now (string_of key) (ByteSlice val) ?ttl c)" for version
    by (simp add: CompareAndSetRaw_def SetRaw_def Let_def)
  have s: "SetRaw now key val ttlSeconds c = (None, cache_Set now (string_of key) (ByteSlice val) ?ttl c)"
    by (simp add: SetRaw_def Let_def)
  have g: "GetRaw now key False (cache_Set now (string_of key) (ByteSlice val) ?ttl c) = Inr val"
    by (simp only: GetRaw_False stored_when_set)
  have n: "GetRaw now' key False (cache_Set now (string_of key) (ByteSlice val) ?ttl c) = Inr val"
    if "ttlSeconds \<le>s 0"
  proof -
    from that have "\<not> 0 <s ttlSeconds" by (simp add: sless_sint sle_sint)
    then show ?thesis
      by (simp add: GetRaw_False stored_cache_Set NoExpiration_def DefaultExpiration_def Expired_def)
  qed
  show ?thesis
    unfolding c s using g n
    by (simp add: items_cache_Set defaultExpiration_cache_Set)
qed

text \<open>
  The instance: the key \<open>k\<close> holds 118 with version zero; \<open>CompareAndSetRaw\<close> with the
  expected version 7 and no TTL writes 9, which a later \<open>GetRaw\<close> returns, and
  leaves the key \<open>z\<close> absent.
\<close>

theorem CompareAndSetRaw_is_SetRaw_witness:
  "(0 :: int64) \<le>s 0
   \<and> [122] \<noteq> string_of (Some [107])
   \<and> CompareAndSetRaw 5 (Some [107]) (Some [9]) 0 7 (snd (SetRaw 0 (Some [107]) (Some [118]) 0 NewDefault)) =
       (True, None, snd (SetRaw 5 (Some [107]) (Some [9]) 0 (snd (SetRaw 0 (Some [107]) (Some [118]) 0 NewDefault))))
   \<and> GetRaw 1700000000000000000 (Some [107]) True
       (snd (snd (CompareAndSetRaw 5 (Some [107]) (Some [9]) 0 7
          (snd (SetRaw 0 (Some [107]) (Some [118]) 0 NewDefault))))) = Inr (Some [9])
   \<and> items (snd (snd (CompareAndSetRaw 5 (Some [107]) (Some [9]) 0 7
          (snd (SetRaw 0 (Some [107]) (Some [118]) 0 NewDefault))))) [122] = None"
proof -
  let ?c = "snd (SetRaw 0 (Some [107]) (Some [118]) 0 NewDefault)"
  have t: "(0 :: int64) \<le>s 0"
    by (simp add: word_sle_eq)
  have h: "[122] \<noteq> string_of (Some [107])"
    by (simp add: string_of_def)
  have n: "items ?c [122] = None"
    by (simp add: eval_defs)
  note c = CompareAndSetRaw_is_SetRaw [of 5 "Some [107]" "Some [9]" 0 7 ?c 7 1700000000000000000]
  from c have a: "CompareAndSetRaw 5 (Some [107]) (Some [9]) 0 7 ?c =
                    (True, None, snd (SetRaw 5 (Some [107]) (Some [9]) 0 ?c))"
    by (rule conjunct1)
  from c t have "GetRaw 1700000000000000000 (Some [107]) False
                   (snd (snd (CompareAndSetRaw 5 (Some [107]) (Some [9]) 0 7 ?c))) = Inr (Some [9])"
    by blast
  then have b: "GetRaw 1700000000000000000 (Some [107]) True
                  (snd (snd (CompareAndSetRaw 5 (Some [107]) (Some [9]) 0 7 ?c))) = Inr (Some [9])"
    by (simp add: GetRaw_def getImpl_stored)
  from c h have "items (snd (snd (CompareAndSetRaw 5 (Some [107]) (Some [9]) 0 7 ?c))) [122] = items ?c [122]"
    by blast
  from this n have z: "items (snd (snd (CompareAndSetRaw 5 (Some [107]) (Some [9]) 0 7 ?c))) [122] = None"
    by (rule trans)
  from t h a b z show ?thesis
    by (intro conjI)
qed

section \<open>Enumerate\<close>

lemma doEnumerateRaw_range_collect_keys:
  "map Key (doEnumerateRaw_range m p s onlyKeys EnumerateRaw_collect ord env) =
     map Key env @ map Some (filter (candidate m p s) ord)"
  by (induction ord arbitrary: env)
     (auto simp add: candidate_def EnumerateRaw_collect_def Let_def split: option.splits object.splits)

lemma EnumerateRaw_loop_collect:
  "j \<le> length cache \<Longrightarrow>
     EnumerateRaw_loop EnumerateRaw_collect cache j env = env @ rev (take j cache)"
  by (induction j arbitrary: env) (simp_all add: take_Suc_conv_app_nth EnumerateRaw_collect_def)

lemma doEnumerateRaw_range_no_candidate:
  "\<forall>k \<in> set ord. \<not> candidate m p s k \<Longrightarrow> doEnumerateRaw_range m p s onlyKeys cb ord env = env"
  by (induction ord arbitrary: env)
     (auto simp add: candidate_def Let_def split: option.splits object.splits)

lemma candidate_iff:
  "candidate m (string_of prefix) (string_of seek) k =
     ((\<exists>item val. m k = Some item \<and> Object item = ByteSlice val)
      \<and> (\<exists>t. k = string_of prefix @ t) \<and> string_of seek \<le> k)"
  by (auto simp add: candidate_def HasPrefix_append string_ge_lexord split: option.splits object.splits)

lemma EnumerateRaw_collect_keys:
  "map Key (snd (EnumerateRaw now ord prefix seek batchSize onlyKeys reverse EnumerateRaw_collect [] c)) =
     (if reverse then rev (map Some (filter (candidate (cache_Items now c) (string_of prefix) (string_of seek)) ord))
      else map Some (filter (candidate (cache_Items now c) (string_of prefix) (string_of seek)) ord))"
  using doEnumerateRaw_range_collect_keys [of "cache_Items now c" "string_of prefix" "string_of seek" onlyKeys ord "[]"]
  by (simp add: EnumerateRaw_def doEnumerateRaw_def Let_def EnumerateRaw_loop_collect rev_map [symmetric])

lemma EnumerateRaw_no_error:
  "fst (EnumerateRaw now ord prefix seek batchSize onlyKeys reverse cb env c) = None"
  by (simp add: EnumerateRaw_def doEnumerateRaw_def Let_def)

lemma EnumerateRaw_batchSize:
  "EnumerateRaw now ord prefix seek batchSize onlyKeys reverse cb env c =
   EnumerateRaw now ord prefix seek batchSize' onlyKeys reverse cb env c"
  by (simp add: EnumerateRaw_def doEnumerateRaw_def Let_def)

lemma EnumerateRaw_nothing:
  assumes "\<forall>k. HasPrefix k (string_of prefix) \<longrightarrow> cache_Items now c k = None"
  shows "EnumerateRaw now ord prefix seek batchSize onlyKeys reverse cb env c = (None, env)"
proof -
  have "\<forall>k \<in> set ord. \<not> candidate (cache_Items now c) (string_of prefix) (string_of seek) k"
    using assms by (auto simp add: candidate_def split: option.splits object.splits)
  then have "doEnumerateRaw_range (cache_Items now c) (string_of prefix) (string_of seek) onlyKeys cb ord env = env"
    and "doEnumerateRaw_range (cache_Items now c) (string_of prefix) (string_of seek) onlyKeys
           EnumerateRaw_collect ord [] = []"
    by (rule doEnumerateRaw_range_no_candidate)+
  then show ?thesis
    by (simp add: EnumerateRaw_def doEnumerateRaw_def Let_def)
qed

lemma doEnumerateRaw_range_Cons:
  "doEnumerateRaw_range m p s onlyKeys cb (key # rest) env =
     (if candidate m p s key
      then (case cb (entry_of m onlyKeys key) env of
              (continue, env') \<Rightarrow>
                if \<not> continue then env' else doEnumerateRaw_range m p s onlyKeys cb rest env')
      else doEnumerateRaw_range m p s onlyKeys cb rest env)"
  by (auto simp add: candidate_def entry_of_def Let_def split: option.splits object.splits)

lemma doEnumerateRaw_range_deliver:
  "doEnumerateRaw_range m p s onlyKeys cb ord env =
     deliver cb (map (entry_of m onlyKeys) (filter (candidate m p s) ord)) env"
proof (induction ord arbitrary: env)
  case Nil
  then show ?case by simp
next
  case (Cons key ord)
  then show ?case
    by (simp add: doEnumerateRaw_range_Cons split: prod.splits del: doEnumerateRaw_range.simps)
qed

lemma deliver_collect: "deliver EnumerateRaw_collect entries acc = acc @ entries"
  by (induction entries arbitrary: acc) (simp_all add: EnumerateRaw_collect_def)

lemma EnumerateRaw_loop_deliver:
  "j \<le> length cache \<Longrightarrow> EnumerateRaw_loop cb cache j env = deliver cb (rev (take j cache)) env"
proof (induction j arbitrary: env)
  case 0
  then show ?case by simp
next
  case (Suc j)
  then show ?case
    by (simp add: take_Suc_conv_app_nth split: prod.splits)
qed

lemma EnumerateRaw_deliver:
  "EnumerateRaw now ord prefix seek batchSize onlyKeys reverse cb env c =
     (None, deliver cb
        ((if reverse then rev else id)
           (map (entry_of (cache_Items now c) onlyKeys)
              (filter (candidate (cache_Items now c) (string_of prefix) (string_of seek)) ord))) env)"
  by (simp add: EnumerateRaw_def doEnumerateRaw_def Let_def doEnumerateRaw_range_deliver
      deliver_collect EnumerateRaw_loop_deliver)

text \<open>
  The entries delivered are the ones the visitor is called with. The visitor
  \<open>EnumerateRaw_collect\<close>, started on the empty list, never stops the enumeration and
  returns them in the order delivered.

  C5, as the code has it. For every prefix, seek, batch size, \<open>onlyKeys\<close> and
  direction, and every order in which the runtime visits the snapshot \<open>Items()\<close>
  returns, \<open>EnumerateRaw\<close> returns no error and delivers, each once, exactly the keys
  of the snapshot whose stored object is a byte slice, that start with the prefix and
  that are lexicographically at or after the seek. The batch size changes nothing, for
  any visitor. With no such key nothing is delivered.
\<close>

theorem EnumerateRaw_delivers:
  assumes "iteration_order ord (cache_Items now c)"
  shows "fst (EnumerateRaw now ord prefix seek batchSize onlyKeys reverse EnumerateRaw_collect [] c) = None
    \<and> set (map Key (snd (EnumerateRaw now ord prefix seek batchSize onlyKeys reverse EnumerateRaw_collect [] c))) =
        Some ` {k. (\<exists>item val. cache_Items now c k = Some item \<and> Object item = ByteSlice val)
                   \<and> (\<exists>t. k = string_of prefix @ t) \<and> string_of seek \<le> k}
    \<and> distinct (map Key (snd (EnumerateRaw now ord prefix seek batchSize onlyKeys reverse EnumerateRaw_collect [] c)))
    \<and> EnumerateRaw now ord prefix seek batchSize onlyKeys reverse cb env c =
        EnumerateRaw now ord prefix seek batchSize' onlyKeys reverse cb env c"
proof -
  let ?P = "candidate (cache_Items now c) (string_of prefix) (string_of seek)"
  from assms have d: "distinct ord" and s: "set ord = dom (cache_Items now c)"
    by (simp_all add: iteration_order_def)
  have "set (filter ?P ord) = {k. ?P k}"
    using s by (auto simp add: candidate_def split: option.splits)
  then have "set (map Some (filter ?P ord)) = Some ` {k. ?P k}"
    by simp
  moreover have "distinct (map Some (filter ?P ord))"
    using d by (simp add: distinct_map)
  ultimately show ?thesis
    using EnumerateRaw_batchSize [of now ord prefix seek batchSize onlyKeys reverse cb env c batchSize']
    by (simp add: EnumerateRaw_collect_keys EnumerateRaw_no_error candidate_iff del: set_filter set_map)
qed

text \<open>
  The instance: the keys \<open>a1\<close>, \<open>a2\<close>, \<open>b1\<close> and the prefix \<open>a\<close>.
\<close>

theorem EnumerateRaw_delivers_witness:
  "iteration_order [[98, 49], [97, 50], [97, 49]] (cache_Items 5 example_store)
   \<and> set (map Key (snd (EnumerateRaw 5 [[98, 49], [97, 50], [97, 49]] (Some [97]) None 0 False False
          EnumerateRaw_collect [] example_store))) =
        Some ` {k. (\<exists>item val. cache_Items 5 example_store k = Some item \<and> Object item = ByteSlice val)
                   \<and> (\<exists>t. k = string_of (Some [97]) @ t) \<and> string_of None \<le> k}
   \<and> map Key (snd (EnumerateRaw 5 [[98, 49], [97, 50], [97, 49]] (Some [97]) None 0 False False
          EnumerateRaw_collect [] example_store)) = [Some [97, 50], Some [97, 49]]"
proof -
  note t = EnumerateRaw_delivers [OF example_store_order, of "Some [97]" None 0 False False]
  show ?thesis
    by (intro conjI) (rule example_store_order, rule t [THEN conjunct2, THEN conjunct1], rule example_enum)
qed

text \<open>
  The claim as stated, for every snapshot, fails on a key whose object is not a byte
  slice (a store made by \<open>FromCache\<close> from a cache that holds other values): the key
  \<open>a1\<close> is in the snapshot, starts with \<open>a\<close> and is at or after the empty seek, and
  is not delivered, since \<open>doEnumerateRaw\<close> skips what \<open>item.Object.([]byte)\<close>
  rejects.
\<close>

theorem EnumerateRaw_other_object:
  "iteration_order [[97, 49]]
     (cache_Items 0 (FromCache \<lparr>defaultExpiration = - 1,
        items = [[97, 49] \<mapsto> \<lparr>Object = OtherObject, Expiration = 0\<rparr>]\<rparr>))
   \<and> cache_Items 0 (FromCache \<lparr>defaultExpiration = - 1,
        items = [[97, 49] \<mapsto> \<lparr>Object = OtherObject, Expiration = 0\<rparr>]\<rparr>) [97, 49] \<noteq> None
   \<and> HasPrefix [97, 49] (string_of (Some [97])) \<and> string_ge [97, 49] (string_of None)
   \<and> EnumerateRaw 0 [[97, 49]] (Some [97]) None 0 False False EnumerateRaw_collect []
        (FromCache \<lparr>defaultExpiration = - 1,
           items = [[97, 49] \<mapsto> \<lparr>Object = OtherObject, Expiration = 0\<rparr>]\<rparr>) = (None, [])"
  by (auto simp add: iteration_order_def eval_defs HasPrefix_def EnumerateRaw_def doEnumerateRaw_def
      dom_def split: if_splits)

text \<open>
  C6. On the same store, at the same clock reading and with the same iteration order,
  prefix, seek, batch size and \<open>onlyKeys\<close>, the sequence of entries delivered in
  reverse mode is the reverse of the sequence delivered in forward mode, and neither
  mode returns an error. For any visitor, also one that stops early, forward mode
  delivers the forward sequence to it front to back and reverse mode delivers the same
  sequence back to front, each until the visitor asks to stop.
\<close>

theorem EnumerateRaw_reverse:
  "snd (EnumerateRaw now ord prefix seek batchSize onlyKeys True EnumerateRaw_collect [] c) =
     rev (snd (EnumerateRaw now ord prefix seek batchSize onlyKeys False EnumerateRaw_collect [] c))
   \<and> fst (EnumerateRaw now ord prefix seek batchSize onlyKeys True EnumerateRaw_collect [] c) = None
   \<and> fst (EnumerateRaw now ord prefix seek batchSize onlyKeys False EnumerateRaw_collect [] c) = None
   \<and> EnumerateRaw now ord prefix seek batchSize onlyKeys False cb env c =
       (None, deliver cb
          (snd (EnumerateRaw now ord prefix seek batchSize onlyKeys False EnumerateRaw_collect [] c)) env)
   \<and> EnumerateRaw now ord prefix seek batchSize onlyKeys True cb env c =
       (None, deliver cb
          (rev (snd (EnumerateRaw now ord prefix seek batchSize onlyKeys False EnumerateRaw_collect [] c)))
          env)"
  by (simp add: EnumerateRaw_deliver deliver_collect)

section \<open>DropWithPrefix\<close>

lemma items_DropWithPrefix_range:
  "items (DropWithPrefix_range m p ord c) k =
     (if k \<in> set ord \<and> m k \<noteq> None \<and> HasPrefix k p then None else items c k)"
  by (induction ord arbitrary: c) (auto simp add: cache_Delete_def split: option.splits)

lemma defaultExpiration_DropWithPrefix_range:
  "defaultExpiration (DropWithPrefix_range m p ord c) = defaultExpiration c"
  by (induction ord arbitrary: c) (auto simp add: cache_Delete_def split: option.splits)

lemma DropWithPrefix_hidden:
  assumes "iteration_order ord (cache_Items now c)" "now \<le>s now'" "HasPrefix k (string_of prefix)"
  shows "cache_Items now' (snd (DropWithPrefix now ord prefix c)) k = None"
proof (cases "cache_Items now c k")
  case None
  then have "items c k = None \<or> (\<exists>item. items c k = Some item \<and> Expired now item)"
    by (auto simp add: cache_Items_def split: option.splits if_splits)
  then have "cache_Items now' c k = None"
    using assms(2) by (auto simp add: cache_Items_def dest: Expired_mono)
  moreover have "items (snd (DropWithPrefix now ord prefix c)) k = items c k"
    using None by (simp add: DropWithPrefix_def items_DropWithPrefix_range)
  ultimately show ?thesis by (simp add: cache_Items_def)
next
  case (Some item)
  then have "k \<in> set ord" using assms(1) by (auto simp add: iteration_order_def)
  then have "items (snd (DropWithPrefix now ord prefix c)) k = None"
    using Some assms(3) by (simp add: DropWithPrefix_def items_DropWithPrefix_range)
  then show ?thesis by (simp add: cache_Items_def)
qed

text \<open>
  C9. \<open>DropWithPrefix\<close> returns no error. It deletes every key of the snapshot
  (the keys that have not expired) that starts with the prefix, and leaves every other
  key of the engine as it was. At any later clock reading no key that starts with the
  prefix is in the snapshot, and \<open>EnumerateRaw\<close> with that prefix, whatever the seek,
  batch size, \<open>onlyKeys\<close>, direction, iteration order and visitor, never calls the
  visitor and returns no error.
\<close>

theorem DropWithPrefix_then_Enumerate:
  assumes "iteration_order ord (cache_Items now c)" "now \<le>s now'"
  shows "fst (DropWithPrefix now ord prefix c) = None
    \<and> (\<forall>k. items (snd (DropWithPrefix now ord prefix c)) k =
            (if HasPrefix k (string_of prefix) \<and> cache_Items now c k \<noteq> None then None else items c k))
    \<and> (\<forall>k. HasPrefix k (string_of prefix) \<longrightarrow>
            cache_Items now' (snd (DropWithPrefix now ord prefix c)) k = None)
    \<and> EnumerateRaw now' ord' prefix seek batchSize onlyKeys reverse cb env
          (snd (DropWithPrefix now ord prefix c)) = (None, env)"
proof -
  have h: "\<forall>k. HasPrefix k (string_of prefix) \<longrightarrow>
            cache_Items now' (snd (DropWithPrefix now ord prefix c)) k = None"
    using DropWithPrefix_hidden [OF assms] by blast
  have "items (snd (DropWithPrefix now ord prefix c)) k =
            (if HasPrefix k (string_of prefix) \<and> cache_Items now c k \<noteq> None then None else items c k)" for k
    using assms(1) by (auto simp add: DropWithPrefix_def items_DropWithPrefix_range iteration_order_def)
  with h EnumerateRaw_nothing [OF h] show ?thesis
    by (simp add: DropWithPrefix_def)
qed

text \<open>
  The instance: dropping the prefix \<open>a\<close> from the keys \<open>a1\<close>, \<open>a2\<close>, \<open>b1\<close>.
\<close>

theorem DropWithPrefix_then_Enumerate_witness:
  "iteration_order [[98, 49], [97, 50], [97, 49]] (cache_Items 5 example_store)
   \<and> (5 :: int64) \<le>s 6
   \<and> EnumerateRaw 6 [[98, 49]] (Some [97]) None 0 False False EnumerateRaw_collect []
        (snd (DropWithPrefix 5 [[98, 49], [97, 50], [97, 49]] (Some [97]) example_store)) = (None, [])
   \<and> GetRaw 6 (Some [97, 49]) True
        (snd (DropWithPrefix 5 [[98, 49], [97, 50], [97, 49]] (Some [97]) example_store)) = Inl ErrNotExist
   \<and> GetRaw 6 (Some [98, 49]) True
        (snd (DropWithPrefix 5 [[98, 49], [97, 50], [97, 49]] (Some [97]) example_store)) = Inr (Some [3])"
proof -
  have le: "(5 :: int64) \<le>s 6" by (simp add: word_sle_eq)
  note t = DropWithPrefix_then_Enumerate [OF example_store_order le, of "Some [97]" "[[98, 49]]" None 0
      False False EnumerateRaw_collect "[]"]
  show ?thesis
    by (intro conjI)
      (rule example_store_order, rule le, rule t [THEN conjunct2, THEN conjunct2, THEN conjunct2],
        rule example_drop(1), rule example_drop(2))
qed

end
